theory Spec2Isabelle
  imports Main "HOL-Library.Word" "HOL-Library.Sublist"
begin

unbundle bit_operations_syntax

section \<open>Data model\<close>

text \<open>
  A firmware image is a Python \<^verbatim>\<open>bytes\<close> object: a list of 8-bit values.  Python integers
  are unbounded, so addresses are \<^typ>\<open>int\<close>; file offsets and lengths are \<^typ>\<open>nat\<close>.
  Every exception the analysis functions can raise is a value of \<open>error\<close>; all of them are
  subclasses of Python's \<^verbatim>\<open>Exception\<close>.
\<close>

type_synonym byte = "8 word"
type_synonym bytes = "byte list"

datatype error =
    StructError
  | IndexError
  | ZlibError
  | UnicodeDecodeError
  | JSONDecodeError
  | AttributeError
  | TypeError

definition FLASH_BASE :: int where
  "FLASH_BASE = 0x08000000"

definition KNOWN_OFFSETS :: "(int \<times> int \<times> string) list" where
  "KNOWN_OFFSETS =
    [(0x0000,  0, ''No bootloader (direct flash)''),
     (0x1000,  4, ''Minimal / custom 4 KiB bootloader''),
     (0x2000,  8, ''HID / stm32duino bootloader''),
     (0x3000, 12, ''Creality K1 / K1 SE / K1 Max (GD32F303)''),
     (0x5000, 20, ''DFU 20 KiB (uncommon)''),
     (0x7000, 28, ''Creality/Klipper custom 28 KiB bootloader''),
     (0x8000, 32, ''DFU 32 KiB standard'')]"

definition KNOWN_BL_OFFSETS :: "nat list" where
  "KNOWN_BL_OFFSETS = [0x0000, 0x1000, 0x2000, 0x3000, 0x5000, 0x7000, 0x8000]"

section \<open>Library primitives: \<^verbatim>\<open>struct\<close> and \<^verbatim>\<open>bytes.count\<close>\<close>

text \<open>The value of a byte string read as a little-endian unsigned number.\<close>

fun le_value :: "bytes \<Rightarrow> int" where
  "le_value [] = 0"
| "le_value (b # bs) = uint b + 256 * le_value bs"

text \<open>
  \<^verbatim>\<open>u32le(data, offset) = struct.unpack_from('<I', data, offset)[0]\<close>: raises
  \<^verbatim>\<open>struct.error\<close> unless four bytes are available at the offset.
\<close>

definition u32le :: "bytes \<Rightarrow> nat \<Rightarrow> error + int" where
  "u32le data offset =
     (if offset + 4 \<le> length data then Inr (le_value (take 4 (drop offset data)))
      else Inl StructError)"

text \<open>
  \<^verbatim>\<open>struct.pack('<I', v)\<close>: raises \<^verbatim>\<open>struct.error\<close> unless \<open>0 \<le> v < 2^32\<close>.
\<close>

definition pack_u32le :: "int \<Rightarrow> error + bytes" where
  "pack_u32le v =
     (if 0 \<le> v \<and> v < 2 ^ 32
      then Inr [word_of_int v, word_of_int (v div 2 ^ 8),
                word_of_int (v div 2 ^ 16), word_of_int (v div 2 ^ 24)]
      else Inl StructError)"

text \<open>
  \<^verbatim>\<open>data.count(sub)\<close>: the number of non-overlapping occurrences, scanning from the left;
  for the empty pattern Python answers \<open>len(data) + 1\<close>.
\<close>

fun count_nonempty :: "bytes \<Rightarrow> bytes \<Rightarrow> nat" where
  "count_nonempty sub [] = 0"
| "count_nonempty sub (x # xs) =
     (if take (length sub) (x # xs) = sub
      then 1 + count_nonempty sub (drop (length sub - 1) xs)
      else count_nonempty sub xs)"

definition bytes_count :: "bytes \<Rightarrow> bytes \<Rightarrow> nat" where
  "bytes_count data sub =
     (if sub = [] then length data + 1 else count_nonempty sub data)"

section \<open>Vector table validation\<close>

record vector_table =
  msp :: int
  reset :: int
  thumb :: int
  reset_addr :: int
  msp_ok :: bool
  flash_ok :: bool

definition analyze_vector_table :: "bytes \<Rightarrow> error + vector_table" where
  "analyze_vector_table data =
     (case u32le data 0 of Inl e \<Rightarrow> Inl e | Inr m \<Rightarrow>
       (case u32le data 4 of Inl e \<Rightarrow> Inl e | Inr r \<Rightarrow>
          (let t = r AND 1;
               addr = r AND 0xFFFFFFFE
           in Inr \<lparr> msp = m, reset = r, thumb = t, reset_addr = addr,
                    msp_ok = (0x20000000 \<le> m \<and> m \<le> 0x20020000),
                    flash_ok = (FLASH_BASE \<le> addr \<and> addr < FLASH_BASE + 0x80000) \<rparr>)))"

text \<open>
  The top-level verdict of the report (\<^verbatim>\<open>render_html\<close>) calls the image invalid when
  \<^verbatim>\<open>not vt['msp_ok'] or not vt['flash_ok'] or not vt['thumb']\<close>; this is the negation.
\<close>

definition verdict_valid :: "vector_table \<Rightarrow> bool" where
  "verdict_valid vt = (\<not> (\<not> msp_ok vt \<or> \<not> flash_ok vt \<or> \<not> (thumb vt \<noteq> 0)))"

text \<open>
  \<^verbatim>\<open>is_valid_vt\<close> returns \<^verbatim>\<open>msp_ok and flash_ok and (reset & 1)\<close>, which every caller
  uses as a truth value only; the model returns that truth value.
\<close>

definition is_valid_vt :: "bytes \<Rightarrow> nat \<Rightarrow> error + bool" where
  "is_valid_vt data offset =
     (if offset + 8 > length data then Inr False
      else
        (case u32le data offset of Inl e \<Rightarrow> Inl e | Inr m \<Rightarrow>
          (case u32le data (offset + 4) of Inl e \<Rightarrow> Inl e | Inr r \<Rightarrow>
             (let m_ok = (0x20000000 \<le> m \<and> m \<le> 0x20020000);
                  f_ok = (FLASH_BASE \<le> (r AND 0xFFFFFFFE) \<and>
                          (r AND 0xFFFFFFFE) < FLASH_BASE + 0x80000)
              in Inr (m_ok \<and> f_ok \<and> (r AND 1) \<noteq> 0)))))"

section \<open>Link base resolution\<close>

text \<open>The loop over \<^verbatim>\<open>KNOWN_BL_OFFSETS[1:]\<close>: the first offset with a valid table, else 0.\<close>

fun probe_offsets :: "bytes \<Rightarrow> nat list \<Rightarrow> error + nat" where
  "probe_offsets data [] = Inr 0"
| "probe_offsets data (off # offs) =
     (case is_valid_vt data off of
        Inl e \<Rightarrow> Inl e
      | Inr v \<Rightarrow> if v then Inr off else probe_offsets data offs)"

text \<open>The first block of \<^verbatim>\<open>find_link_base\<close>: where the vector table lives in the file.\<close>

definition find_vt_file_offset :: "bytes \<Rightarrow> error + nat" where
  "find_vt_file_offset data =
     (case is_valid_vt data 0 of
        Inl e \<Rightarrow> Inl e
      | Inr v \<Rightarrow> if \<not> v then probe_offsets data (tl KNOWN_BL_OFFSETS) else Inr 0)"

text \<open>
  The primary method: the loop over \<^verbatim>\<open>KNOWN_BL_OFFSETS\<close> that packs the hypothetical flash
  address of the dictionary and searches the buffer for it.  \<open>Inr None\<close> is the loop running
  to its end without a \<^verbatim>\<open>return\<close>.
\<close>

fun cross_reference :: "bytes \<Rightarrow> nat \<Rightarrow> nat \<Rightarrow> nat list \<Rightarrow> error + int option" where
  "cross_reference data dict_file_offset vt_file_offset [] = Inr None"
| "cross_reference data dict_file_offset vt_file_offset (bl_offset # rest) =
     (let link_base = FLASH_BASE + int bl_offset;
          dict_flash_addr = link_base + int dict_file_offset - int vt_file_offset
      in case pack_u32le dict_flash_addr of
           Inl e \<Rightarrow> Inl e
         | Inr needle \<Rightarrow>
             if bytes_count data needle > 0 then Inr (Some link_base)
             else cross_reference data dict_file_offset vt_file_offset rest)"

definition find_link_base :: "bytes \<Rightarrow> nat option \<Rightarrow> error + int" where
  "find_link_base data dict_file_offset =
     (case find_vt_file_offset data of Inl e \<Rightarrow> Inl e | Inr vt_file_offset \<Rightarrow>
       (case (case dict_file_offset of
                None \<Rightarrow> Inr None
              | Some d \<Rightarrow> cross_reference data d vt_file_offset KNOWN_BL_OFFSETS) of
          Inl e \<Rightarrow> Inl e
        | Inr primary \<Rightarrow>
           (case primary of
              Some link_base \<Rightarrow> Inr link_base
            | None \<Rightarrow>
                if vt_file_offset > 0 then Inr (FLASH_BASE + int vt_file_offset)
                else
                  (case u32le data 4 of Inl e \<Rightarrow> Inl e | Inr r \<Rightarrow>
                     Inr ((r AND 0xFFFFFFFE) AND 0xFFFFF000)))))"

text \<open>
  In \<^verbatim>\<open>main\<close>: \<^verbatim>\<open>bl_offset = (link_base - FLASH_BASE) if link_base else None\<close>.
\<close>

definition derive_bl_offset :: "int \<Rightarrow> int option" where
  "derive_bl_offset link_base =
     (if link_base \<noteq> 0 then Some (link_base - FLASH_BASE) else None)"

section \<open>Offset classification\<close>

fun offset_label_in :: "(int \<times> int \<times> string) list \<Rightarrow> int \<Rightarrow> int \<times> string" where
  "offset_label_in [] bl_offset = (bl_offset div 1024, ''Non-standard offset'')"
| "offset_label_in ((off, kib, label) # rest) bl_offset =
     (if off = bl_offset then (kib, label) else offset_label_in rest bl_offset)"

definition offset_label :: "int \<Rightarrow> int \<times> string" where
  "offset_label bl_offset = offset_label_in KNOWN_OFFSETS bl_offset"

section \<open>The validator's criteria, as the specification words them\<close>

text \<open>The little-endian 32-bit word stored at a file offset.\<close>

definition le_word_at :: "bytes \<Rightarrow> nat \<Rightarrow> int" where
  "le_word_at data offset =
     uint (data ! offset) + 2 ^ 8 * uint (data ! (offset + 1)) +
     2 ^ 16 * uint (data ! (offset + 2)) + 2 ^ 24 * uint (data ! (offset + 3))"

text \<open>The stack pointer lies in the closed range \<open>[0x20000000, 0x20020000]\<close>.\<close>

definition stack_pointer_valid :: "bytes \<Rightarrow> nat \<Rightarrow> bool" where
  "stack_pointer_valid data offset =
     (0x20000000 \<le> le_word_at data offset \<and> le_word_at data offset \<le> 0x20020000)"

text \<open>
  The reset vector with bit 0 cleared lies in the half-open range
  \<open>[0x08000000, 0x08080000)\<close>.
\<close>

definition reset_address_valid :: "bytes \<Rightarrow> nat \<Rightarrow> bool" where
  "reset_address_valid data offset =
     (let rv = le_word_at data (offset + 4); masked = rv - rv mod 2
      in 0x08000000 \<le> masked \<and> masked < 0x08080000)"

definition thumb_bit_set :: "bytes \<Rightarrow> nat \<Rightarrow> bool" where
  "thumb_bit_set data offset = odd (le_word_at data (offset + 4))"

definition plausible_vector_table :: "bytes \<Rightarrow> nat \<Rightarrow> bool" where
  "plausible_vector_table data offset =
     (stack_pointer_valid data offset \<and> reset_address_valid data offset \<and>
      thumb_bit_set data offset)"

section \<open>Sample images\<close>

text \<open>Stack pointer \<open>0x20001000\<close>, reset vector \<open>0x08000001\<close>.\<close>

definition plain_image :: bytes where
  "plain_image = [0x00, 0x10, 0x00, 0x20, 0x01, 0x00, 0x00, 0x08]"

definition zero_image :: bytes where
  "zero_image = [0, 0, 0, 0, 0, 0, 0, 0]"

text \<open>Stack pointer 0, reset vector \<open>0x00001001\<close>.\<close>

definition low_reset_image :: bytes where
  "low_reset_image = [0, 0, 0, 0, 0x01, 0x10, 0, 0]"

definition two_tables_image :: bytes where
  "two_tables_image = plain_image @ replicate 4088 0 @ plain_image"

definition shifted_image :: bytes where
  "shifted_image = replicate 4096 0 @ plain_image"

section \<open>Dictionary locator\<close>

text \<open>
  What \<^verbatim>\<open>json.loads\<close> returns.  A dictionary is an association list (its keys are
  distinct); no function of the analyzer inspects a float, which is kept as its literal text.
\<close>

datatype json =
    JObject "(string \<times> json) list"
  | JArray "json list"
  | JString string
  | JInt int
  | JFloat string
  | JBool bool
  | JNull

text \<open>
  \<^verbatim>\<open>obj.get('config', obj)\<close>: only a dictionary has the method \<^verbatim>\<open>get\<close>; on any other
  value the attribute lookup raises \<^verbatim>\<open>AttributeError\<close>.
\<close>

definition get_config :: "json \<Rightarrow> error + json" where
  "get_config obj =
     (case obj of
        JObject kvs \<Rightarrow> Inr (case map_of kvs ''config'' of Some v \<Rightarrow> v | None \<Rightarrow> obj)
      | _ \<Rightarrow> Inl AttributeError)"

text \<open>
  \<^verbatim>\<open>k in cfg\<close> for a string \<open>k\<close>: key membership in a dictionary, element membership in a
  list, substring test in a string, and \<^verbatim>\<open>TypeError\<close> on a number, a boolean or
  \<^verbatim>\<open>None\<close>.
\<close>

definition py_contains :: "json \<Rightarrow> string \<Rightarrow> error + bool" where
  "py_contains cfg k =
     (case cfg of
        JObject kvs \<Rightarrow> Inr (map_of kvs k \<noteq> None)
      | JArray xs \<Rightarrow> Inr (JString k \<in> set xs)
      | JString s \<Rightarrow> Inr (sublist k s)
      | _ \<Rightarrow> Inl TypeError)"

text \<open>\<^verbatim>\<open>any(k in cfg for k in keys)\<close>, left to right, stopping at the first hit.\<close>

fun any_in :: "json \<Rightarrow> string list \<Rightarrow> error + bool" where
  "any_in cfg [] = Inr False"
| "any_in cfg (k # ks) =
     (case py_contains cfg k of
        Inl e \<Rightarrow> Inl e
      | Inr v \<Rightarrow> if v then Inr True else any_in cfg ks)"

definition MARKER_KEYS :: "string list" where
  "MARKER_KEYS = [''MCU'', ''CLOCK_FREQ'', ''SERIAL_BAUD'']"

text \<open>
  The body of the \<^verbatim>\<open>try\<close> block at position \<open>i\<close>.  The parameter \<open>decode\<close> stands for
  the library calls \<^verbatim>\<open>json.loads(zlib.decompressobj().decompress(bs).decode('utf-8').strip())\<close>,
  with every exception they raise as an \<open>Inl\<close>.  The result \<open>Inr (Some obj)\<close> is the
  \<^verbatim>\<open>return obj, i\<close>; \<open>Inr None\<close> is falling out of the \<^verbatim>\<open>if\<close>.
\<close>

definition try_candidate :: "(bytes \<Rightarrow> error + json) \<Rightarrow> bytes \<Rightarrow> nat \<Rightarrow> error + json option" where
  "try_candidate decode data i =
     (case decode (drop i data) of Inl e \<Rightarrow> Inl e | Inr obj \<Rightarrow>
       (case get_config obj of Inl e \<Rightarrow> Inl e | Inr cfg \<Rightarrow>
         (case any_in cfg MARKER_KEYS of Inl e \<Rightarrow> Inl e | Inr v \<Rightarrow>
            Inr (if v then Some obj else None))))"

text \<open>\<^verbatim>\<open>data[i]\<close> for a non-negative index: \<^verbatim>\<open>IndexError\<close> past the end.\<close>

definition byte_at :: "bytes \<Rightarrow> nat \<Rightarrow> error + byte" where
  "byte_at data i = (if i < length data then Inr (data ! i) else Inl IndexError)"

text \<open>
  The \<^verbatim>\<open>for\<close> loop over the positions.  The test
  \<^verbatim>\<open>data[i] != 0x78 or data[i+1] not in (0x01, 0x5e, 0x9c, 0xda)\<close> reads \<^verbatim>\<open>data[i+1]\<close> only
  when the first byte matches; \<^verbatim>\<open>except Exception: pass\<close> turns every failure of the
  \<^verbatim>\<open>try\<close> block into the next iteration.
\<close>

fun scan_positions ::
  "(bytes \<Rightarrow> error + json) \<Rightarrow> bytes \<Rightarrow> nat list \<Rightarrow> error + (json \<times> nat) option" where
  "scan_positions decode data [] = Inr None"
| "scan_positions decode data (i # rest) =
     (case byte_at data i of Inl e \<Rightarrow> Inl e | Inr b0 \<Rightarrow>
        if b0 \<noteq> 0x78 then scan_positions decode data rest
        else
          (case byte_at data (i + 1) of Inl e \<Rightarrow> Inl e | Inr b1 \<Rightarrow>
             if b1 \<notin> set [0x01, 0x5e, 0x9c, 0xda] then scan_positions decode data rest
             else
               (case try_candidate decode data i of
                  Inl e \<Rightarrow> scan_positions decode data rest
                | Inr r \<Rightarrow>
                   (case r of
                      None \<Rightarrow> scan_positions decode data rest
                    | Some obj \<Rightarrow> Inr (Some (obj, i))))))"

text \<open>
  \<^verbatim>\<open>range(4, len(data) - 10)\<close> is empty when \<open>len(data) - 10 \<le> 4\<close>, also when it is
  negative; so is \<open>[4..<length data - 10]\<close> with the subtraction of \<^typ>\<open>nat\<close>.  The result
  \<open>None\<close> is the pair \<^verbatim>\<open>(None, None)\<close>.
\<close>

definition extract_dictionary ::
  "(bytes \<Rightarrow> error + json) \<Rightarrow> bytes \<Rightarrow> error + (json \<times> nat) option" where
  "extract_dictionary decode data = scan_positions decode data [4..<length data - 10]"

section \<open>The resolver and the locator, as the specification words them\<close>

text \<open>The validator reports a plausible table: eight bytes are there and the table is plausible.\<close>

definition reports_plausible :: "bytes \<Rightarrow> nat \<Rightarrow> bool" where
  "reports_plausible data offset =
     (offset + 8 \<le> length data \<and> plausible_vector_table data offset)"

text \<open>The four raw little-endian bytes of a 32-bit address.\<close>

definition le_bytes32 :: "int \<Rightarrow> bytes" where
  "le_bytes32 v =
     [word_of_int (v mod 256), word_of_int (v div 256 mod 256),
      word_of_int (v div 65536 mod 256), word_of_int (v div 16777216 mod 256)]"

definition fits_u32 :: "int \<Rightarrow> bool" where
  "fits_u32 v = (0 \<le> v \<and> v < 2 ^ 32)"

text \<open>
  The hypothetical flash address of the dictionary for candidate offset \<open>b\<close>, and its needle
  occurring somewhere in the buffer (an address has a needle only if it fits in 32 bits).
\<close>

definition candidate_address :: "nat \<Rightarrow> nat \<Rightarrow> nat \<Rightarrow> int" where
  "candidate_address b d vt = 0x08000000 + int b + int d - int vt"

definition needle_occurs :: "bytes \<Rightarrow> int \<Rightarrow> bool" where
  "needle_occurs data v = (fits_u32 v \<and> sublist (le_bytes32 v) data)"

text \<open>
  Steps 3 and 4: \<open>0x08000000\<close> plus the vector-table file offset when that is nonzero, else
  the reset vector with the thumb bit cleared, rounded down to a 4 KiB page.
\<close>

definition fallback_link_base :: "bytes \<Rightarrow> nat \<Rightarrow> int" where
  "fallback_link_base data vt =
     (if vt \<noteq> 0 then 0x08000000 + int vt
      else let r = le_word_at data 4; masked = r - r mod 2
           in masked - masked mod 4096)"

text \<open>The two-byte signature of a compressed stream at position \<open>i\<close>.\<close>

definition signature_at :: "bytes \<Rightarrow> nat \<Rightarrow> bool" where
  "signature_at data i =
     (i + 1 < length data \<and> data ! i = 0x78 \<and>
      (data ! (i + 1) = 0x01 \<or> data ! (i + 1) = 0x5e \<or>
       data ! (i + 1) = 0x9c \<or> data ! (i + 1) = 0xda))"

text \<open>
  A position holds an acceptable dictionary stream: the signature is there, and the stream
  decompresses and parses to an object with a marker key.
\<close>

definition accepted_at :: "(bytes \<Rightarrow> error + json) \<Rightarrow> bytes \<Rightarrow> nat \<Rightarrow> json option" where
  "accepted_at decode data i =
     (if signature_at data i
      then (case try_candidate decode data i of Inl e \<Rightarrow> None | Inr r \<Rightarrow> r)
      else None)"

section \<open>A sample dictionary\<close>

text \<open>
  The bytes of \<^verbatim>\<open>zlib.compress\<close> on the JSON text
  \<^verbatim>\<open>{"config": {"MCU": "gd32f303", "CLOCK_FREQ": 72000000, "SERIAL_BAUD": 250000}}\<close>,
  and the object \<^verbatim>\<open>json.loads\<close> returns for that text.
\<close>

definition klipper_stream :: bytes where
  "klipper_stream =
     [120, 156, 171, 86, 74, 206, 207, 75, 203, 76, 87, 178, 82, 168, 86, 242, 117, 14, 5,
      210, 74, 233, 41, 198, 70, 105, 198, 6, 198, 74, 58, 10, 74, 206, 62, 254, 206, 222,
      241, 110, 65, 174, 129, 64, 25, 115, 35, 3, 48, 0, 138, 7, 187, 6, 121, 58, 250, 196,
      59, 57, 134, 186, 0, 37, 140, 76, 65, 194, 181, 181, 0, 40, 129, 19, 176]"

definition klipper_dict :: json where
  "klipper_dict =
     JObject [(''config'',
               JObject [(''MCU'', JString ''gd32f303''),
                        (''CLOCK_FREQ'', JInt 72000000),
                        (''SERIAL_BAUD'', JInt 250000)])]"

text \<open>
  A stand-in for the library decoder on the sample images: it returns the object on every
  buffer that begins with the sample stream (as \<^verbatim>\<open>decompressobj\<close> does, leaving the bytes
  after the stream unused) and fails everywhere else.
\<close>

definition sample_decode :: "bytes \<Rightarrow> error + json" where
  "sample_decode bs = (if prefix klipper_stream bs then Inr klipper_dict else Inl ZlibError)"

text \<open>
  A firmware image linked at \<open>0x08003000\<close>: the vector table, the literal \<open>0x0800300C\<close>
  (the flash address of the dictionary), the dictionary at file offset 12, and padding.
\<close>

definition klipper_image :: bytes where
  "klipper_image = plain_image @ [0x0C, 0x30, 0x00, 0x08] @ klipper_stream @ replicate 11 0"


text \<open>The sample stream at file offset 3.\<close>

definition early_stream_image :: bytes where
  "early_stream_image = [0, 0, 0] @ klipper_stream @ replicate 11 0"

text \<open>A spurious signature at file offset 8 that does not decompress.\<close>

definition spurious_image :: bytes where
  "spurious_image = plain_image @ [0x78, 0x9C, 0x00] @ replicate 19 0"

text \<open>A dump of \<open>2^32 - 0x08000000 + 86\<close> bytes with the dictionary at \<open>0xF8000000\<close>.\<close>

definition huge_image :: bytes where
  "huge_image = replicate 4160749568 0 @ klipper_stream @ replicate 11 0"

section \<open>Bit masks on integers\<close>

lemma and_push_bit_int: "(x::int) AND push_bit n y = push_bit n (drop_bit n x AND y)"
  by (rule bit_eqI) (auto simp: bit_simps)

lemma page_mask_shape: "(0xFFFFF000::int) = push_bit 12 0xFFFFF"
  by simp

lemma thumb_mask_shape: "(0xFFFFFFFE::int) = push_bit 1 (mask 31)"
  by (simp add: mask_eq_exp_minus_1)

lemma and_page_mask_aligned: "((x::int) AND 0xFFFFF000) mod 0x1000 = 0"
  unfolding page_mask_shape and_push_bit_int by (simp add: push_bit_eq_mult)

lemma and_thumb_mask:
  assumes "0 \<le> r" and "r < 2 ^ 32"
  shows "(r::int) AND 0xFFFFFFFE = r - r mod 2"
proof -
  have "r AND 0xFFFFFFFE = 2 * ((r div 2) mod 2 ^ 31)"
    unfolding thumb_mask_shape and_push_bit_int
    by (simp add: push_bit_eq_mult drop_bit_eq_div take_bit_eq_mod flip: take_bit_eq_mask)
  also have "(r div 2) mod 2 ^ 31 = r div 2"
    using assms by (intro mod_pos_pos_trivial) auto
  finally show ?thesis by presburger
qed

lemma and_one_int: "(r::int) AND 1 = r mod 2"
  by (simp add: and_one_eq)

section \<open>Reading words\<close>

lemma take4_drop:
  assumes "offset + 4 \<le> length data"
  shows "take 4 (drop offset data) =
         [data ! offset, data ! (offset + 1), data ! (offset + 2), data ! (offset + 3)]"
proof -
  have "length (take 4 (drop offset data)) = 4"
    using assms by simp
  moreover have "\<And>k. k < 4 \<Longrightarrow> take 4 (drop offset data) ! k = data ! (offset + k)"
    using assms by simp
  ultimately show ?thesis
    by (intro nth_equalityI) (auto simp: nth_Cons' less_Suc_eq eval_nat_numeral)
qed

lemma u32le_eq:
  "offset + 4 \<le> length data \<Longrightarrow> u32le data offset = Inr (le_word_at data offset)"
  by (simp add: u32le_def take4_drop le_word_at_def)

lemma uint_byte_bounds: "0 \<le> uint (b::byte)" "uint (b::byte) < 256"
  using uint_bounded [of b] by simp_all

lemma le_word_at_bounds: "0 \<le> le_word_at data offset" "le_word_at data offset < 2 ^ 32"
proof -
  note b = uint_byte_bounds
  show "0 \<le> le_word_at data offset"
    unfolding le_word_at_def
    using b(1) [of "data ! offset"] b(1) [of "data ! (offset + 1)"]
      b(1) [of "data ! (offset + 2)"] b(1) [of "data ! (offset + 3)"]
    by simp
  show "le_word_at data offset < 2 ^ 32"
    unfolding le_word_at_def
    using b(2) [of "data ! offset"] b(2) [of "data ! (offset + 1)"]
      b(2) [of "data ! (offset + 2)"] b(2) [of "data ! (offset + 3)"]
    by simp
qed

section \<open>Vector table validator\<close>

lemma is_valid_vt_short:
  "length data < offset + 8 \<Longrightarrow> is_valid_vt data offset = Inr False"
  by (simp add: is_valid_vt_def)

lemma is_valid_vt_plausible:
  assumes "offset + 8 \<le> length data"
  shows "is_valid_vt data offset = Inr (plausible_vector_table data offset)"
proof -
  let ?r = "le_word_at data (offset + 4)"
  have m: "?r AND 0xFFFFFFFE = ?r - ?r mod 2"
    by (rule and_thumb_mask) (rule le_word_at_bounds)+
  have t: "(?r AND 1 = 0) = even ?r"
    by (simp add: and_one_int even_iff_mod_2_eq_zero)
  from assms have "u32le data offset = Inr (le_word_at data offset)"
    and "u32le data (offset + 4) = Inr ?r"
    by (simp_all add: u32le_eq)
  with assms show ?thesis
    by (auto simp add: is_valid_vt_def Let_def m t FLASH_BASE_def plausible_vector_table_def
        stack_pointer_valid_def reset_address_valid_def thumb_bit_set_def)
qed

lemma is_valid_vt_total: "\<exists>v. is_valid_vt data offset = Inr v"
proof (cases "offset + 8 \<le> length data")
  case True
  then show ?thesis by (blast intro: is_valid_vt_plausible)
next
  case False
  then have "is_valid_vt data offset = Inr False"
    by (simp add: is_valid_vt_short)
  then show ?thesis by blast
qed

text \<open>
  C4.  Whenever eight bytes are available at the offset, \<open>is_valid_vt\<close> answers exactly the
  three-way conjunction: stack pointer in \<open>[0x20000000, 0x20020000]\<close>, reset vector with bit 0
  cleared in \<open>[0x08000000, 0x08080000)\<close>, and bit 0 of the reset vector set.  The top-level
  analysis at offset 0 computes the same three facts, and the report's verdict accepts the
  table exactly when all three hold.
\<close>

theorem plausible_vector_table_three_way:
  assumes "offset + 8 \<le> length data"
  shows "is_valid_vt data offset = Inr (plausible_vector_table data offset) \<and>
         (\<exists>vt. analyze_vector_table data = Inr vt \<and>
               msp_ok vt = stack_pointer_valid data 0 \<and>
               flash_ok vt = reset_address_valid data 0 \<and>
               (thumb vt \<noteq> 0) = thumb_bit_set data 0 \<and>
               verdict_valid vt = plausible_vector_table data 0)"
proof -
  let ?r = "le_word_at data 4"
  have m: "?r AND 0xFFFFFFFE = ?r - ?r mod 2"
    by (rule and_thumb_mask) (rule le_word_at_bounds)+
  have t: "(?r AND 1 = 0) = even ?r"
    by (simp add: and_one_int even_iff_mod_2_eq_zero)
  from assms have "u32le data 0 = Inr (le_word_at data 0)" and "u32le data 4 = Inr ?r"
    by (simp_all add: u32le_eq)
  then have "\<exists>vt. analyze_vector_table data = Inr vt \<and>
               msp_ok vt = stack_pointer_valid data 0 \<and>
               flash_ok vt = reset_address_valid data 0 \<and>
               (thumb vt \<noteq> 0) = thumb_bit_set data 0 \<and>
               verdict_valid vt = plausible_vector_table data 0"
    by (auto simp add: analyze_vector_table_def Let_def m t FLASH_BASE_def verdict_valid_def
        plausible_vector_table_def stack_pointer_valid_def reset_address_valid_def
        thumb_bit_set_def)
  with is_valid_vt_plausible [OF assms] show ?thesis
    by simp
qed

theorem plausible_vector_table_three_way_witness:
  "0 + 8 \<le> length plain_image \<and> is_valid_vt plain_image 0 = Inr True \<and>
   plausible_vector_table plain_image 0 \<and>
   (\<exists>vt. analyze_vector_table plain_image = Inr vt \<and> verdict_valid vt)"
proof -
  have len: "0 + 8 \<le> length plain_image"
    by (simp add: plain_image_def)
  have p: "plausible_vector_table plain_image 0"
    by (simp add: plain_image_def plausible_vector_table_def stack_pointer_valid_def
        reset_address_valid_def thumb_bit_set_def le_word_at_def)
  from plausible_vector_table_three_way [OF len] len p show ?thesis
    by auto
qed

text \<open>
  C7.  On a buffer too short for a table, \<open>is_valid_vt\<close> answers False, but the top-level
  analysis \<open>analyze_vector_table\<close> has no length check and raises \<^verbatim>\<open>struct.error\<close>:
  here on a four-byte file.
\<close>

theorem analyze_vector_table_short_buffer:
  "is_valid_vt [0, 0, 0, 0] 0 = Inr False \<and>
   analyze_vector_table [0, 0, 0, 0] = Inl StructError"
  by (simp add: is_valid_vt_def analyze_vector_table_def u32le_def)

text \<open>
  C10.  The last-resort fallback is not confined to the flash range.  On an all-zero image
  of eight bytes no enumerated offset holds a plausible table and the resolver returns link
  base 0; with reset vector \<open>0x00001001\<close> it returns \<open>0x1000\<close>, and the bootloader offset
  derived from it is negative.
\<close>

theorem fallback_below_flash_base:
  "8 \<le> length zero_image \<and>
   map (is_valid_vt zero_image) KNOWN_BL_OFFSETS =
     [Inr False, Inr False, Inr False, Inr False, Inr False, Inr False, Inr False] \<and>
   find_link_base zero_image None = Inr 0 \<and> 0 < FLASH_BASE \<and>
   8 \<le> length low_reset_image \<and>
   map (is_valid_vt low_reset_image) KNOWN_BL_OFFSETS =
     [Inr False, Inr False, Inr False, Inr False, Inr False, Inr False, Inr False] \<and>
   find_link_base low_reset_image None = Inr 0x1000 \<and> 0x1000 < FLASH_BASE \<and>
   derive_bl_offset 0x1000 = Some (0x1000 - FLASH_BASE) \<and> 0x1000 - FLASH_BASE < 0"
  by (simp add: find_link_base_def find_vt_file_offset_def is_valid_vt_def
      KNOWN_BL_OFFSETS_def zero_image_def low_reset_image_def u32le_def FLASH_BASE_def
      derive_bl_offset_def)

section \<open>Locating the vector table\<close>

lemma is_valid_vt_reports: "is_valid_vt data offset = Inr (reports_plausible data offset)"
  by (cases "offset + 8 \<le> length data")
    (simp_all add: reports_plausible_def is_valid_vt_plausible is_valid_vt_short)

lemma probe_offsets_find:
  "probe_offsets data offs =
     Inr (case find (reports_plausible data) offs of Some off \<Rightarrow> off | None \<Rightarrow> 0)"
  by (induction offs) (simp_all add: is_valid_vt_reports)

lemma find_vt_file_offset_find:
  "find_vt_file_offset data =
     Inr (if reports_plausible data 0 then 0
          else case find (reports_plausible data) [0x1000, 0x2000, 0x3000, 0x5000, 0x7000, 0x8000] of
                 Some off \<Rightarrow> off | None \<Rightarrow> 0)"
  by (simp add: find_vt_file_offset_def is_valid_vt_reports probe_offsets_find KNOWN_BL_OFFSETS_def)

lemma find_vt_file_offset_total: "\<exists>vt. find_vt_file_offset data = Inr vt"
  by (simp add: find_vt_file_offset_find)

lemma vt_file_offset_bound:
  "find_vt_file_offset data = Inr vt \<Longrightarrow> vt \<in> set KNOWN_BL_OFFSETS"
  by (auto simp: find_vt_file_offset_find KNOWN_BL_OFFSETS_def split: if_splits option.splits)

lemma vt_le_flash: "find_vt_file_offset data = Inr vt \<Longrightarrow> int vt \<le> FLASH_BASE"
  by (drule vt_file_offset_bound) (auto simp: KNOWN_BL_OFFSETS_def FLASH_BASE_def)

lemma vt_file_offset_cases:
  "\<exists>vt. find_vt_file_offset data = Inr vt \<and>
     (reports_plausible data 0 \<longrightarrow> vt = 0) \<and>
     (\<not> reports_plausible data 0 \<longrightarrow>
        (vt \<in> set (tl KNOWN_BL_OFFSETS) \<and> reports_plausible data vt \<and>
         (\<forall>off \<in> set (tl KNOWN_BL_OFFSETS). off < vt \<longrightarrow> \<not> reports_plausible data off)) \<or>
        (vt = 0 \<and> (\<forall>off \<in> set (tl KNOWN_BL_OFFSETS). \<not> reports_plausible data off)))"
  unfolding find_vt_file_offset_find KNOWN_BL_OFFSETS_def by auto

section \<open>Sample images with and without a leading bootloader region\<close>

lemma le_value_zeros: "le_value (replicate n 0) = 0"
  by (induction n) simp_all

lemma two_tables_image_valid:
  "is_valid_vt two_tables_image 0 = Inr True"
  "is_valid_vt two_tables_image 0x1000 = Inr True"
  by (simp_all add: is_valid_vt_def two_tables_image_def plain_image_def u32le_def FLASH_BASE_def)

lemma two_tables_image_vt: "find_vt_file_offset two_tables_image = Inr 0"
  by (simp add: find_vt_file_offset_def two_tables_image_valid)

lemma two_tables_image_reset: "u32le two_tables_image 4 = Inr 0x08000001"
  by (simp add: two_tables_image_def plain_image_def u32le_def)

lemma two_tables_image_resolved: "find_link_base two_tables_image None = Inr 0x08000000"
  by (simp add: find_link_base_def two_tables_image_vt two_tables_image_reset)

lemma shifted_image_valid:
  "is_valid_vt shifted_image 0 = Inr False"
  "is_valid_vt shifted_image 0x1000 = Inr True"
  by (simp_all add: is_valid_vt_def shifted_image_def plain_image_def u32le_def FLASH_BASE_def
      le_value_zeros)

lemma plain_image_vt: "find_vt_file_offset plain_image = Inr 0"
proof -
  have "is_valid_vt plain_image 0 = Inr True"
    by (simp add: is_valid_vt_def plain_image_def u32le_def FLASH_BASE_def)
  then show ?thesis by (simp add: find_vt_file_offset_def)
qed

section \<open>Searching the buffer for a needle\<close>

lemma word8_mod: "(word_of_int (v mod 256) :: byte) = word_of_int v"
  by (simp add: word_of_int_eq_iff take_bit_eq_mod)

lemma pack_u32le_eq:
  "pack_u32le v = (if fits_u32 v then Inr (le_bytes32 v) else Inl StructError)"
  by (simp add: pack_u32le_def fits_u32_def le_bytes32_def word8_mod)

lemma prefix_take: "prefix sub xs \<longleftrightarrow> take (length sub) xs = sub"
  by (metis append_eq_conv_conj prefix_def)

lemma count_nonempty_pos:
  "sub \<noteq> [] \<Longrightarrow> 0 < count_nonempty sub data \<longleftrightarrow> sublist sub data"
proof (induction sub data rule: count_nonempty.induct)
  case (1 sub)
  then show ?case by simp
next
  case (2 sub x xs)
  show ?case
  proof (cases "take (length sub) (x # xs) = sub")
    case True
    then have "prefix sub (x # xs)" by (simp add: prefix_take)
    with True show ?thesis by (simp add: sublist_Cons_right)
  next
    case False
    then have "\<not> prefix sub (x # xs)" by (simp add: prefix_take)
    with False 2 show ?thesis by (simp add: sublist_Cons_right)
  qed
qed

lemma bytes_count_pos:
  "sub \<noteq> [] \<Longrightarrow> 0 < bytes_count data sub \<longleftrightarrow> sublist sub data"
  by (simp add: bytes_count_def count_nonempty_pos)

lemma le_bytes32_nonempty: "le_bytes32 v \<noteq> []"
  by (simp add: le_bytes32_def)

section \<open>The cross-reference loop\<close>

lemma cross_reference_Cons:
  "cross_reference data d vt (b # rest) =
     (if \<not> fits_u32 (candidate_address b d vt) then Inl StructError
      else if needle_occurs data (candidate_address b d vt) then Inr (Some (FLASH_BASE + int b))
      else cross_reference data d vt rest)"
  by (simp add: Let_def pack_u32le_eq candidate_address_def FLASH_BASE_def needle_occurs_def
      bytes_count_pos le_bytes32_nonempty)

lemma cross_reference_first:
  assumes "sorted bs" and "int vt \<le> FLASH_BASE"
    and "find (\<lambda>b. needle_occurs data (candidate_address b d vt)) bs = Some b"
  shows "cross_reference data d vt bs = Inr (Some (FLASH_BASE + int b))"
  using assms
proof (induction bs)
  case Nil
  then show ?case by simp
next
  case (Cons a bs)
  show ?case
  proof (cases "needle_occurs data (candidate_address a d vt)")
    case True
    with Cons.prems show ?thesis
      by (simp add: cross_reference_Cons needle_occurs_def del: cross_reference.simps(2))
  next
    case False
    with Cons.prems have f: "find (\<lambda>b. needle_occurs data (candidate_address b d vt)) bs = Some b"
      by simp
    then have "b \<in> set bs" and occ: "needle_occurs data (candidate_address b d vt)"
      by (auto simp: find_Some_iff)
    with Cons.prems(1) have "a \<le> b" by auto
    with occ Cons.prems(2) have "fits_u32 (candidate_address a d vt)"
      by (simp add: needle_occurs_def fits_u32_def candidate_address_def FLASH_BASE_def)
    with False Cons.IH [OF _ Cons.prems(2) f] Cons.prems(1) show ?thesis
      by (simp add: cross_reference_Cons del: cross_reference.simps(2))
  qed
qed

lemma cross_reference_none:
  assumes "\<forall>b \<in> set bs. fits_u32 (candidate_address b d vt) \<and>
             \<not> needle_occurs data (candidate_address b d vt)"
  shows "cross_reference data d vt bs = Inr None"
  using assms by (induction bs) (simp_all add: cross_reference_Cons del: cross_reference.simps(2))

lemma cross_reference_some:
  assumes "cross_reference data d vt bs = Inr (Some lb)"
  shows "\<exists>b. find (\<lambda>b. needle_occurs data (candidate_address b d vt)) bs = Some b \<and>
             lb = FLASH_BASE + int b"
  using assms
  by (induction bs) (auto simp add: cross_reference_Cons simp del: cross_reference.simps(2) split: if_splits)

lemma cross_reference_error:
  assumes "cross_reference data d vt bs = Inl e"
  shows "e = StructError \<and> (\<exists>b \<in> set bs. \<not> fits_u32 (candidate_address b d vt))"
  using assms
  by (induction bs) (auto simp add: cross_reference_Cons simp del: cross_reference.simps(2) split: if_splits)

lemma find_first_sorted:
  assumes "sorted xs" and "distinct xs" and "b \<in> set xs" and "P b"
    and "\<forall>b' \<in> set xs. b' < b \<longrightarrow> \<not> P b'"
  shows "find P xs = Some b"
  using assms
proof (induction xs)
  case Nil
  then show ?case by simp
next
  case (Cons a xs)
  show ?case
  proof (cases "a = b")
    case True
    with Cons.prems show ?thesis by simp
  next
    case False
    with Cons.prems have b: "b \<in> set xs" by simp
    with Cons.prems(1) False have "a < b" by auto
    with Cons.prems have "\<not> P a" by simp
    with Cons b show ?thesis by simp
  qed
qed

lemma find_Some_first:
  assumes "sorted xs" and "find P xs = Some b"
  shows "b \<in> set xs \<and> P b \<and> (\<forall>b' \<in> set xs. b' < b \<longrightarrow> \<not> P b')"
  using assms
proof (induction xs)
  case Nil
  then show ?case by simp
next
  case (Cons a xs)
  then show ?case by (auto split: if_splits)
qed

lemma known_sorted: "sorted KNOWN_BL_OFFSETS" "distinct KNOWN_BL_OFFSETS"
  by (simp_all add: KNOWN_BL_OFFSETS_def)

section \<open>The fallback chain\<close>

lemma page_mask_shape2: "(0xFFFFF000::int) = push_bit 12 (mask 20)"
  by (simp add: mask_eq_exp_minus_1)

lemma and_page_mask:
  assumes "0 \<le> x" and "x < 2 ^ 32"
  shows "(x::int) AND 0xFFFFF000 = x - x mod 4096"
proof -
  have "x AND 0xFFFFF000 = 4096 * ((x div 4096) mod 2 ^ 20)"
    unfolding page_mask_shape2 and_push_bit_int
    by (simp add: push_bit_eq_mult drop_bit_eq_div take_bit_eq_mod flip: take_bit_eq_mask)
  also have "(x div 4096) mod 2 ^ 20 = x div 4096"
    using assms by (intro mod_pos_pos_trivial) auto
  finally show ?thesis by presburger
qed

lemma last_resort_value:
  assumes "8 \<le> length data"
  shows "u32le data 4 = Inr (le_word_at data 4)"
    and "(le_word_at data 4 AND 0xFFFFFFFE) AND 0xFFFFF000 = fallback_link_base data 0"
proof -
  let ?r = "le_word_at data 4"
  show "u32le data 4 = Inr ?r" using assms by (simp add: u32le_eq)
  have m: "?r AND 0xFFFFFFFE = ?r - ?r mod 2"
    by (rule and_thumb_mask) (rule le_word_at_bounds)+
  have "0 \<le> ?r - ?r mod 2" "?r - ?r mod 2 < 2 ^ 32"
    using le_word_at_bounds [of data 4] by presburger+
  then show "(?r AND 0xFFFFFFFE) AND 0xFFFFF000 = fallback_link_base data 0"
    by (simp add: m and_page_mask fallback_link_base_def Let_def)
qed

lemma find_link_base_fallback:
  assumes "8 \<le> length data" and "find_vt_file_offset data = Inr vt"
    and "d = None \<or> (\<exists>D. d = Some D \<and> cross_reference data D vt KNOWN_BL_OFFSETS = Inr None)"
  shows "find_link_base data d = Inr (fallback_link_base data vt)"
proof (cases "vt = 0")
  case True
  with assms(2,3) last_resort_value [OF assms(1)] show ?thesis
    by (auto simp: find_link_base_def)
next
  case False
  with assms(2,3) show ?thesis
    by (auto simp: find_link_base_def fallback_link_base_def FLASH_BASE_def)
qed

lemma known_bl_aligned: "b \<in> set KNOWN_BL_OFFSETS \<Longrightarrow> int b mod 4096 = 0"
  unfolding KNOWN_BL_OFFSETS_def by (simp, elim disjE) simp_all

lemma find_link_base_cases:
  assumes "find_link_base data d = Inr lb"
  shows "(\<exists>b \<in> set KNOWN_BL_OFFSETS. lb = FLASH_BASE + int b) \<or>
         (\<exists>r. lb = (r AND 0xFFFFFFFE) AND 0xFFFFF000)"
proof -
  obtain vt where vt: "find_vt_file_offset data = Inr vt"
    using find_vt_file_offset_total by blast
  then have vtk: "vt \<in> set KNOWN_BL_OFFSETS" by (rule vt_file_offset_bound)
  define primary where
    "primary = (case d of None \<Rightarrow> Inr None
                | Some D \<Rightarrow> cross_reference data D vt KNOWN_BL_OFFSETS)"
  have flb: "find_link_base data d =
      (case primary of Inl e \<Rightarrow> Inl e
       | Inr p \<Rightarrow> (case p of Some l \<Rightarrow> Inr l
           | None \<Rightarrow> if vt > 0 then Inr (FLASH_BASE + int vt)
                     else (case u32le data 4 of Inl e \<Rightarrow> Inl e
                           | Inr r \<Rightarrow> Inr ((r AND 0xFFFFFFFE) AND 0xFFFFF000))))"
    by (simp add: find_link_base_def vt primary_def)
  show ?thesis
  proof (cases primary)
    case (Inl e)
    with assms flb show ?thesis by simp
  next
    case (Inr p)
    show ?thesis
    proof (cases p)
      case (Some l)
      with Inr assms flb have l: "lb = l" by simp
      from Some Inr obtain D where "cross_reference data D vt KNOWN_BL_OFFSETS = Inr (Some l)"
        by (cases d) (simp_all add: primary_def)
      from cross_reference_some [OF this] obtain b where
        f: "find (\<lambda>b. needle_occurs data (candidate_address b D vt)) KNOWN_BL_OFFSETS = Some b"
        and "l = FLASH_BASE + int b" by blast
      moreover from find_Some_first [OF known_sorted(1) f] have "b \<in> set KNOWN_BL_OFFSETS"
        by simp
      ultimately show ?thesis using l by blast
    next
      case None
      show ?thesis
      proof (cases "vt > 0")
        case True
        with None Inr assms flb have "lb = FLASH_BASE + int vt" by simp
        with vtk show ?thesis by blast
      next
        case False
        with None Inr assms flb have "\<exists>r. lb = (r AND 0xFFFFFFFE) AND 0xFFFFF000"
          by (cases "u32le data 4") auto
        then show ?thesis by blast
      qed
    qed
  qed
qed

lemma find_link_base_aligned:
  assumes "find_link_base data d = Inr lb"
  shows "(lb - FLASH_BASE) mod 4096 = 0"
proof -
  from find_link_base_cases [OF assms] show ?thesis
  proof
    assume "\<exists>b \<in> set KNOWN_BL_OFFSETS. lb = FLASH_BASE + int b"
    then obtain b where "b \<in> set KNOWN_BL_OFFSETS" and "lb = FLASH_BASE + int b" by blast
    then show ?thesis by (simp add: known_bl_aligned)
  next
    assume "\<exists>r. lb = (r AND 0xFFFFFFFE) AND 0xFFFFF000"
    then obtain r where "lb = (r AND 0xFFFFFFFE) AND 0xFFFFF000" ..
    then have "lb mod 4096 = 0" using and_page_mask_aligned [of "r AND 0xFFFFFFFE"] by simp
    moreover have "FLASH_BASE mod 4096 = 0" by (simp add: FLASH_BASE_def)
    ultimately show ?thesis by (metis mod_diff_eq diff_zero mod_0)
  qed
qed

section \<open>The offset classifier\<close>

lemma known_offsets_fst: "fst ` set KNOWN_OFFSETS = int ` set KNOWN_BL_OFFSETS"
  by (simp add: KNOWN_OFFSETS_def KNOWN_BL_OFFSETS_def)

lemma offset_label_in_other:
  "off \<notin> fst ` set rows \<Longrightarrow> offset_label_in rows off = (off div 1024, ''Non-standard offset'')"
  by (induction rows) (auto simp: rev_image_eqI)

lemma offset_label_other:
  "off \<notin> fst ` set KNOWN_OFFSETS \<Longrightarrow> offset_label off = (off div 1024, ''Non-standard offset'')"
  by (simp add: offset_label_def offset_label_in_other)

lemma offset_label_in_member:
  "distinct (map fst rows) \<Longrightarrow> (off, kib, label) \<in> set rows \<Longrightarrow>
   offset_label_in rows off = (kib, label)"
  by (induction rows) (auto simp: rev_image_eqI)

lemma offset_label_enumerated:
  "(off, kib, label) \<in> set KNOWN_OFFSETS \<Longrightarrow> offset_label off = (kib, label)"
  unfolding offset_label_def
  by (rule offset_label_in_member) (simp_all add: KNOWN_OFFSETS_def)

lemma enumerated_label_standard:
  "(off, kib, label) \<in> set KNOWN_OFFSETS \<Longrightarrow> label \<noteq> ''Non-standard offset''"
  unfolding KNOWN_OFFSETS_def by (simp, elim disjE) simp_all

section \<open>The scan of the dictionary locator\<close>

lemma scan_positions_step:
  assumes "i + 1 < length data"
  shows "scan_positions decode data (i # rest) =
           (case accepted_at decode data i of
              Some obj \<Rightarrow> Inr (Some (obj, i))
            | None \<Rightarrow> scan_positions decode data rest)"
  using assms
  by (auto simp: byte_at_def signature_at_def accepted_at_def split: sum.splits option.splits)

lemma scan_positions_find:
  assumes "\<forall>i \<in> set ps. i + 1 < length data"
  shows "scan_positions decode data ps =
           Inr (case find (\<lambda>i. accepted_at decode data i \<noteq> None) ps of
                  None \<Rightarrow> None
                | Some i \<Rightarrow> Some (the (accepted_at decode data i), i))"
  using assms
proof (induction ps)
  case Nil
  then show ?case by simp
next
  case (Cons i ps)
  then have "i + 1 < length data" by simp
  from scan_positions_step [OF this] Cons show ?case
    by (auto simp del: scan_positions.simps(2) split: option.splits)
qed

lemma extract_dictionary_find:
  "extract_dictionary decode data =
     Inr (case find (\<lambda>i. accepted_at decode data i \<noteq> None) [4..<length data - 10] of
            None \<Rightarrow> None
          | Some i \<Rightarrow> Some (the (accepted_at decode data i), i))"
  unfolding extract_dictionary_def by (rule scan_positions_find) auto

lemma scan_range: "i \<in> set [4..<length data - 10] \<longleftrightarrow> 4 \<le> i \<and> i + 10 < length data"
  by auto

lemma extract_dictionary_Some_iff:
  "extract_dictionary decode data = Inr (Some (obj, i)) \<longleftrightarrow>
     4 \<le> i \<and> i + 10 < length data \<and> accepted_at decode data i = Some obj \<and>
     (\<forall>j. 4 \<le> j \<and> j < i \<longrightarrow> accepted_at decode data j = None)"
  (is "?L \<longleftrightarrow> ?R")
proof
  let ?P = "\<lambda>i. accepted_at decode data i \<noteq> None"
  assume ?L
  then have f: "find ?P [4..<length data - 10] = Some i" and o: "the (accepted_at decode data i) = obj"
    by (auto simp: extract_dictionary_find split: option.splits)
  from find_Some_first [OF _ f] have "i \<in> set [4..<length data - 10]" "?P i"
    "\<forall>j \<in> set [4..<length data - 10]. j < i \<longrightarrow> \<not> ?P j" by auto
  with o show ?R by auto
next
  let ?P = "\<lambda>i. accepted_at decode data i \<noteq> None"
  assume r: ?R
  then have "find ?P [4..<length data - 10] = Some i"
    by (intro find_first_sorted) auto
  with r show ?L by (simp add: extract_dictionary_find)
qed

lemma extract_dictionary_None_iff:
  "extract_dictionary decode data = Inr None \<longleftrightarrow>
     (\<forall>i. 4 \<le> i \<and> i + 10 < length data \<longrightarrow> accepted_at decode data i = None)"
  (is "?L \<longleftrightarrow> ?R")
proof
  let ?P = "\<lambda>i. accepted_at decode data i \<noteq> None"
  assume ?L
  then have n: "find ?P [4..<length data - 10] = None"
    by (simp add: extract_dictionary_find split: option.splits)
  show ?R
  proof (intro allI impI)
    fix i assume "4 \<le> i \<and> i + 10 < length data"
    then have "i \<in> set [4..<length data - 10]" by (simp only: scan_range)
    with n show "accepted_at decode data i = None"
      unfolding find_None_iff by blast
  qed
next
  let ?P = "\<lambda>i. accepted_at decode data i \<noteq> None"
  assume r: ?R
  have "\<not> (\<exists>i. i \<in> set [4..<length data - 10] \<and> ?P i)"
  proof
    assume "\<exists>i. i \<in> set [4..<length data - 10] \<and> ?P i"
    then obtain i where m: "i \<in> set [4..<length data - 10]" and p: "?P i" by blast
    from m have c: "4 \<le> i \<and> i + 10 < length data" by (simp only: scan_range)
    from r [rule_format, OF c] p show False by simp
  qed
  then have "find ?P [4..<length data - 10] = None"
    unfolding find_None_iff .
  then show ?L by (simp add: extract_dictionary_find)
qed

section \<open>The sample dictionary in sample images\<close>

lemma klipper_image_bytes:
  "klipper_image = [0x00, 0x10, 0x00, 0x20, 0x01, 0x00, 0x00, 0x08, 0x0C, 0x30, 0x00, 0x08,
      120, 156, 171, 86, 74, 206, 207, 75, 203, 76, 87, 178, 82, 168, 86, 242, 117, 14, 5,
      210, 74, 233, 41, 198, 70, 105, 198, 6, 198, 74, 58, 10, 74, 206, 62, 254, 206, 222,
      241, 110, 65, 174, 129, 64, 25, 115, 35, 3, 48, 0, 138, 7, 187, 6, 121, 58, 250, 196,
      59, 57, 134, 186, 0, 37, 140, 76, 65, 194, 181, 181, 0, 40, 129, 19, 176,
      0, 0, 0, 0, 0, 0, 0, 0, 0, 0, 0]"
  by (simp add: klipper_image_def plain_image_def klipper_stream_def eval_nat_numeral)

lemma length_klipper_stream: "length klipper_stream = 75"
  by (simp add: klipper_stream_def)

lemma length_klipper_image: "length klipper_image = 98"
  by (simp add: klipper_image_def plain_image_def length_klipper_stream)

lemma range_without_byte:
  assumes "x \<notin> set (take n (drop k data))" and "k \<le> j" and "j < k + n" and "j < length data"
  shows "data ! j \<noteq> x"
proof -
  from assms(2-4) have "take n (drop k data) ! (j - k) = data ! j"
    and "j - k < length (take n (drop k data))"
    by auto
  then have "data ! j \<in> set (take n (drop k data))"
    by (metis nth_mem)
  with assms(1) show ?thesis by auto
qed

lemma tail_without_byte:
  assumes "x \<notin> set (drop k data)" and "k \<le> j" and "j < length data"
  shows "data ! j \<noteq> x"
  using range_without_byte [of x "length data" k data j] assms by simp

lemma accepted_at_other_byte: "data ! j \<noteq> 0x78 \<Longrightarrow> accepted_at decode data j = None"
  by (simp add: accepted_at_def signature_at_def)

lemma decode_klipper: "sample_decode (klipper_stream @ rest) = Inr klipper_dict"
  by (simp add: sample_decode_def)

lemma marker_in_klipper_dict:
  "get_config klipper_dict =
     Inr (JObject [(''MCU'', JString ''gd32f303''), (''CLOCK_FREQ'', JInt 72000000),
                   (''SERIAL_BAUD'', JInt 250000)])"
  "any_in (JObject [(''MCU'', JString ''gd32f303''), (''CLOCK_FREQ'', JInt 72000000),
                   (''SERIAL_BAUD'', JInt 250000)]) MARKER_KEYS = Inr True"
  by (simp_all add: get_config_def klipper_dict_def MARKER_KEYS_def py_contains_def)

lemma try_candidate_klipper:
  "drop i data = klipper_stream @ rest \<Longrightarrow>
   try_candidate sample_decode data i = Inr (Some klipper_dict)"
  by (simp add: try_candidate_def decode_klipper marker_in_klipper_dict)

lemma klipper_stream_signature: "klipper_stream ! 0 = 0x78" "klipper_stream ! Suc 0 = 0x9c"
  by (simp_all add: klipper_stream_def)

lemma accepted_at_klipper:
  assumes "drop i data = klipper_stream @ rest"
  shows "accepted_at sample_decode data i = Some klipper_dict"
proof -
  have len: "length (drop i data) = 75 + length rest"
    by (simp add: assms length_klipper_stream)
  then have "i + 1 < length data" by simp
  moreover have "data ! i = drop i data ! 0" "data ! (i + 1) = drop i data ! 1"
    using len by simp_all
  then have "data ! i = 0x78" "data ! (i + 1) = 0x9c"
    by (simp_all add: assms nth_append length_klipper_stream klipper_stream_signature)
  ultimately show ?thesis
    by (simp add: accepted_at_def signature_at_def try_candidate_klipper [OF assms])
qed

lemma klipper_image_scan:
  "accepted_at sample_decode klipper_image 12 = Some klipper_dict"
  "4 \<le> j \<and> j < 12 \<Longrightarrow> accepted_at sample_decode klipper_image j = None"
proof -
  have "drop 12 klipper_image = klipper_stream @ replicate 11 0"
    by (simp add: klipper_image_def plain_image_def)
  then show "accepted_at sample_decode klipper_image 12 = Some klipper_dict"
    by (rule accepted_at_klipper)
  have "0x78 \<notin> set (take 8 (drop 4 klipper_image))"
    by (simp add: klipper_image_def plain_image_def)
  then show "accepted_at sample_decode klipper_image j = None" if "4 \<le> j \<and> j < 12"
    using that
    by (intro accepted_at_other_byte range_without_byte [where n = 8 and k = 4])
      (simp_all add: length_klipper_image)
qed

lemma klipper_image_vt: "find_vt_file_offset klipper_image = Inr 0"
proof -
  have "is_valid_vt klipper_image 0 = Inr True"
    by (simp add: is_valid_vt_def klipper_image_def plain_image_def u32le_def FLASH_BASE_def)
  then show ?thesis by (simp add: find_vt_file_offset_def)
qed

lemma klipper_image_needles:
  "needle_occurs klipper_image (candidate_address 0x3000 12 0)"
  "\<not> needle_occurs klipper_image (candidate_address 0 12 0)"
  "\<not> needle_occurs klipper_image (candidate_address 0x1000 12 0)"
  "\<not> needle_occurs klipper_image (candidate_address 0x2000 12 0)"
  "\<not> needle_occurs klipper_image (candidate_address 0x5000 12 0)"
  "\<not> needle_occurs klipper_image (candidate_address 0x7000 12 0)"
  "\<not> needle_occurs klipper_image (candidate_address 0x8000 12 0)"
  unfolding klipper_image_bytes
  by (simp_all add: needle_occurs_def candidate_address_def fits_u32_def le_bytes32_def
      sublist_Cons_right)

lemma klipper_image_fits:
  "fits_u32 (candidate_address 0 12 0)" "fits_u32 (candidate_address 0x1000 12 0)"
  "fits_u32 (candidate_address 0x2000 12 0)" "fits_u32 (candidate_address 0x3000 12 0)"
  by (simp_all add: fits_u32_def candidate_address_def)

lemma klipper_image_resolved: "find_link_base klipper_image (Some 12) = Inr 0x08003000"
  by (simp add: find_link_base_def klipper_image_vt KNOWN_BL_OFFSETS_def cross_reference_Cons
      klipper_image_needles klipper_image_fits FLASH_BASE_def del: cross_reference.simps(2))


lemma early_stream_image_scan:
  "accepted_at sample_decode early_stream_image 3 = Some klipper_dict"
  "4 \<le> j \<and> j + 10 < length early_stream_image \<Longrightarrow>
   accepted_at sample_decode early_stream_image j = None"
proof -
  have "drop 3 early_stream_image = klipper_stream @ replicate 11 0"
    by (simp add: early_stream_image_def)
  then show "accepted_at sample_decode early_stream_image 3 = Some klipper_dict"
    by (rule accepted_at_klipper)
  have "0x78 \<notin> set (drop 4 early_stream_image)"
    by (simp add: early_stream_image_def klipper_stream_def)
  then show "accepted_at sample_decode early_stream_image j = None"
    if "4 \<le> j \<and> j + 10 < length early_stream_image"
    using that by (intro accepted_at_other_byte tail_without_byte [where k = 4]) simp_all
qed


lemma spurious_image_candidate:
  "signature_at spurious_image 8"
  "try_candidate sample_decode spurious_image 8 = Inl ZlibError"
  by (simp_all add: signature_at_def spurious_image_def plain_image_def try_candidate_def
      sample_decode_def klipper_stream_def)

lemma spurious_image_signatures:
  assumes "4 \<le> j \<and> j + 10 < length spurious_image" and "signature_at spurious_image j"
  shows "j = 8"
proof (rule ccontr)
  assume "j \<noteq> 8"
  then consider "j < 8" | "9 \<le> j" by linarith
  then have "spurious_image ! j \<noteq> 0x78"
  proof cases
    case 1
    have "0x78 \<notin> set (take 4 (drop 4 spurious_image))"
      by (simp add: spurious_image_def plain_image_def)
    with 1 assms(1) show ?thesis
      by (intro range_without_byte [where n = 4 and k = 4]) simp_all
  next
    case 2
    have "0x78 \<notin> set (drop 9 spurious_image)"
      by (simp add: spurious_image_def plain_image_def)
    with 2 assms(1) show ?thesis
      by (intro tail_without_byte [where k = 9]) simp_all
  qed
  with assms(2) show False by (simp add: signature_at_def)
qed

lemma length_huge_image: "length huge_image = 4160749654"
  by (simp add: huge_image_def length_klipper_stream)

lemma huge_image_zero: "j < 4160749568 \<Longrightarrow> huge_image ! j = 0"
  by (simp add: huge_image_def nth_append)

lemma huge_image_located:
  "extract_dictionary sample_decode huge_image = Inr (Some (klipper_dict, 4160749568))"
proof -
  have "drop 4160749568 huge_image = klipper_stream @ replicate 11 0"
    by (simp add: huge_image_def)
  then have a: "accepted_at sample_decode huge_image 4160749568 = Some klipper_dict"
    by (rule accepted_at_klipper)
  have "accepted_at sample_decode huge_image j = None" if "j < 4160749568" for j
    using that by (intro accepted_at_other_byte) (simp add: huge_image_zero)
  with a show ?thesis
    by (simp add: extract_dictionary_Some_iff length_huge_image)
qed

lemma huge_image_no_table:
  assumes "offset \<in> set KNOWN_BL_OFFSETS"
  shows "\<not> reports_plausible huge_image offset"
proof -
  from assms have "offset + 3 < 4160749568"
    by (auto simp: KNOWN_BL_OFFSETS_def)
  then have "le_word_at huge_image offset = 0"
    by (simp add: le_word_at_def huge_image_zero)
  then show ?thesis
    by (simp add: reports_plausible_def plausible_vector_table_def stack_pointer_valid_def)
qed

lemma huge_image_vt: "find_vt_file_offset huge_image = Inr 0"
  using huge_image_no_table
  by (simp add: find_vt_file_offset_find KNOWN_BL_OFFSETS_def)

lemma huge_image_raises: "find_link_base huge_image (Some 4160749568) = Inl StructError"
  by (simp add: find_link_base_def huge_image_vt KNOWN_BL_OFFSETS_def cross_reference_Cons
      fits_u32_def candidate_address_def del: cross_reference.simps(2))

lemma low_reset_image_resolved: "find_link_base low_reset_image None = Inr 0x1000"
  by (simp add: find_link_base_def find_vt_file_offset_def is_valid_vt_def
      KNOWN_BL_OFFSETS_def low_reset_image_def u32le_def FLASH_BASE_def)

lemma plain_image_no_needle:
  assumes "b \<in> set KNOWN_BL_OFFSETS"
  shows "fits_u32 (candidate_address b 4 0) \<and>
         \<not> sublist (le_bytes32 (candidate_address b 4 0)) plain_image"
proof -
  from assms have "b \<in> {0x0000, 0x1000, 0x2000, 0x3000, 0x5000, 0x7000, 0x8000}"
    by (simp add: KNOWN_BL_OFFSETS_def)
  then show ?thesis
    by (elim insertE emptyE)
      (simp_all add: fits_u32_def candidate_address_def le_bytes32_def plain_image_def
        sublist_Cons_right)
qed

section \<open>The claims about the resolver and the locator\<close>

text \<open>
  C1.  With \<open>vt\<close> the vector-table file offset, the primary method walks the enumerated
  offsets in ascending order and returns \<open>0x08000000 + b\<close> for the first candidate \<open>b\<close> whose
  needle, the four little-endian bytes of \<open>0x08000000 + b + D - vt\<close>, occurs in the buffer; a
  candidate is accepted only if its needle occurs; in particular a buffer in which the needle
  of exactly one candidate occurs resolves to that candidate.
\<close>

theorem primary_cross_reference:
  "\<exists>vt. find_vt_file_offset data = Inr vt \<and>
     (\<forall>b \<in> set KNOWN_BL_OFFSETS.
        needle_occurs data (candidate_address b d vt) \<and>
        (\<forall>b' \<in> set KNOWN_BL_OFFSETS. b' < b \<longrightarrow>
           \<not> needle_occurs data (candidate_address b' d vt))
        \<longrightarrow> find_link_base data (Some d) = Inr (0x08000000 + int b)) \<and>
     (\<forall>b \<in> set KNOWN_BL_OFFSETS.
        needle_occurs data (candidate_address b d vt) \<and>
        (\<forall>b' \<in> set KNOWN_BL_OFFSETS. b' \<noteq> b \<longrightarrow>
           \<not> needle_occurs data (candidate_address b' d vt))
        \<longrightarrow> find_link_base data (Some d) = Inr (0x08000000 + int b)) \<and>
     (\<forall>lb. cross_reference data d vt KNOWN_BL_OFFSETS = Inr (Some lb) \<longrightarrow>
        (\<exists>b \<in> set KNOWN_BL_OFFSETS. lb = 0x08000000 + int b \<and>
           needle_occurs data (candidate_address b d vt) \<and>
           (\<forall>b' \<in> set KNOWN_BL_OFFSETS. b' < b \<longrightarrow>
              \<not> needle_occurs data (candidate_address b' d vt))))"
proof -
  obtain vt where vt: "find_vt_file_offset data = Inr vt"
    using find_vt_file_offset_total by blast
  let ?P = "\<lambda>b. needle_occurs data (candidate_address b d vt)"
  have vtb: "int vt \<le> FLASH_BASE" using vt by (rule vt_le_flash)
  have first: "find_link_base data (Some d) = Inr (0x08000000 + int b)"
    if "b \<in> set KNOWN_BL_OFFSETS" "?P b" "\<forall>b' \<in> set KNOWN_BL_OFFSETS. b' < b \<longrightarrow> \<not> ?P b'" for b
  proof -
    from that have "find ?P KNOWN_BL_OFFSETS = Some b"
      by (intro find_first_sorted known_sorted)
    then have "cross_reference data d vt KNOWN_BL_OFFSETS = Inr (Some (FLASH_BASE + int b))"
      by (intro cross_reference_first known_sorted vtb)
    with vt show ?thesis by (simp add: find_link_base_def FLASH_BASE_def)
  qed
  have only: "find_link_base data (Some d) = Inr (0x08000000 + int b)"
    if "b \<in> set KNOWN_BL_OFFSETS" "?P b" "\<forall>b' \<in> set KNOWN_BL_OFFSETS. b' \<noteq> b \<longrightarrow> \<not> ?P b'" for b
    using that by (intro first) auto
  have conv: "\<exists>b \<in> set KNOWN_BL_OFFSETS. lb = 0x08000000 + int b \<and> ?P b \<and>
                (\<forall>b' \<in> set KNOWN_BL_OFFSETS. b' < b \<longrightarrow> \<not> ?P b')"
    if "cross_reference data d vt KNOWN_BL_OFFSETS = Inr (Some lb)" for lb
  proof -
    from cross_reference_some [OF that] obtain b where
      "find ?P KNOWN_BL_OFFSETS = Some b" and lb: "lb = FLASH_BASE + int b" by blast
    from find_Some_first [OF known_sorted(1) this(1)] lb show ?thesis
      by (auto simp: FLASH_BASE_def)
  qed
  from vt first only conv show ?thesis by blast
qed

theorem primary_cross_reference_witness:
  "find_vt_file_offset klipper_image = Inr 0 \<and>
   needle_occurs klipper_image (candidate_address 0x3000 12 0) \<and>
   \<not> needle_occurs klipper_image (candidate_address 0 12 0) \<and>
   \<not> needle_occurs klipper_image (candidate_address 0x1000 12 0) \<and>
   \<not> needle_occurs klipper_image (candidate_address 0x2000 12 0) \<and>
   find_link_base klipper_image (Some 12) = Inr 0x08003000"
proof -
  from primary_cross_reference [of klipper_image 12] obtain vt where
    vt: "find_vt_file_offset klipper_image = Inr vt" and
    first: "\<forall>b \<in> set KNOWN_BL_OFFSETS.
        needle_occurs klipper_image (candidate_address b 12 vt) \<and>
        (\<forall>b' \<in> set KNOWN_BL_OFFSETS. b' < b \<longrightarrow>
           \<not> needle_occurs klipper_image (candidate_address b' 12 vt))
        \<longrightarrow> find_link_base klipper_image (Some 12) = Inr (0x08000000 + int b)"
    by blast
  from vt have z: "vt = 0" by (simp add: klipper_image_vt)
  have m: "0x3000 \<in> set KNOWN_BL_OFFSETS"
    by (simp add: KNOWN_BL_OFFSETS_def)
  have e: "\<forall>b' \<in> set KNOWN_BL_OFFSETS. b' < 0x3000 \<longrightarrow>
             \<not> needle_occurs klipper_image (candidate_address b' 12 0)"
    by (simp add: KNOWN_BL_OFFSETS_def klipper_image_needles)
  from first [rule_format, OF m] z e klipper_image_needles(1)
  have "find_link_base klipper_image (Some 12) = Inr (0x08000000 + int 0x3000)"
    by blast
  then show ?thesis
    by (simp add: klipper_image_vt klipper_image_needles)
qed

text \<open>
  C2, as the code has it.  On a buffer of at least eight bytes, with \<open>vt\<close> the vector-table
  file offset: when no dictionary was located, or every candidate address fits in 32 bits
  and no needle occurs, the resolver returns \<open>0x08000000 + vt\<close> for \<open>vt \<noteq> 0\<close> and otherwise the
  reset vector with the thumb bit cleared, rounded down to a 4 KiB page; and the resolver
  returns a link base whenever the largest candidate address fits in 32 bits.
\<close>

theorem fallback_chain:
  assumes "8 \<le> length data"
  shows "\<exists>vt. find_vt_file_offset data = Inr vt \<and>
     find_link_base data None = Inr (fallback_link_base data vt) \<and>
     (\<forall>D. (\<forall>b \<in> set KNOWN_BL_OFFSETS.
              fits_u32 (candidate_address b D vt) \<and>
              \<not> sublist (le_bytes32 (candidate_address b D vt)) data)
          \<longrightarrow> find_link_base data (Some D) = Inr (fallback_link_base data vt)) \<and>
     (\<forall>D. fits_u32 (candidate_address 0x8000 D vt)
          \<longrightarrow> (\<exists>lb. find_link_base data (Some D) = Inr lb))"
proof -
  obtain vt where vt: "find_vt_file_offset data = Inr vt"
    using find_vt_file_offset_total by blast
  have a: "find_link_base data None = Inr (fallback_link_base data vt)"
    using assms vt by (simp add: find_link_base_fallback)
  have b: "find_link_base data (Some D) = Inr (fallback_link_base data vt)"
    if "\<forall>b \<in> set KNOWN_BL_OFFSETS. fits_u32 (candidate_address b D vt) \<and>
          \<not> sublist (le_bytes32 (candidate_address b D vt)) data" for D
  proof -
    from that have "cross_reference data D vt KNOWN_BL_OFFSETS = Inr None"
      by (intro cross_reference_none) (simp add: needle_occurs_def)
    with assms vt show ?thesis by (simp add: find_link_base_fallback)
  qed
  have c: "\<exists>lb. find_link_base data (Some D) = Inr lb"
    if "fits_u32 (candidate_address 0x8000 D vt)" for D
  proof (cases "cross_reference data D vt KNOWN_BL_OFFSETS")
    case (Inl e)
    then obtain b where "b \<in> set KNOWN_BL_OFFSETS" "\<not> fits_u32 (candidate_address b D vt)"
      using cross_reference_error by blast
    moreover from vt have "int vt \<le> FLASH_BASE" by (rule vt_le_flash)
    ultimately have False using that
      by (auto simp: KNOWN_BL_OFFSETS_def fits_u32_def candidate_address_def FLASH_BASE_def)
    then show ?thesis ..
  next
    case (Inr r)
    show ?thesis
    proof (cases r)
      case None
      with Inr assms vt show ?thesis by (simp add: find_link_base_fallback)
    next
      case (Some lb)
      with Inr vt show ?thesis by (simp add: find_link_base_def)
    qed
  qed
  from vt a b c show ?thesis by blast
qed

theorem fallback_chain_witness:
  "8 \<le> length plain_image \<and>
   find_link_base plain_image None = Inr 0x08000000 \<and>
   find_link_base plain_image (Some 4) = Inr 0x08000000"
proof -
  have len: "8 \<le> length plain_image"
    by (simp add: plain_image_def)
  from fallback_chain [OF len] obtain vt where
    vt: "find_vt_file_offset plain_image = Inr vt" and
    a: "find_link_base plain_image None = Inr (fallback_link_base plain_image vt)" and
    b: "\<forall>D. (\<forall>b \<in> set KNOWN_BL_OFFSETS.
              fits_u32 (candidate_address b D vt) \<and>
              \<not> sublist (le_bytes32 (candidate_address b D vt)) plain_image)
          \<longrightarrow> find_link_base plain_image (Some D) = Inr (fallback_link_base plain_image vt)"
    by blast
  from vt have z: "vt = 0" by (simp add: plain_image_vt)
  have v: "fallback_link_base plain_image 0 = 0x08000000"
    by (simp add: fallback_link_base_def le_word_at_def plain_image_def)
  from b [rule_format, of 4] z plain_image_no_needle
  have "find_link_base plain_image (Some 4) = Inr (fallback_link_base plain_image 0)"
    by blast
  with a z v len show ?thesis by simp
qed

text \<open>
  C2, as the claim states it, fails: a dump of \<open>0xF8000056\<close> bytes whose dictionary is located
  at file offset \<open>0xF8000000\<close> makes the first candidate address \<open>2^32\<close>, which
  \<^verbatim>\<open>struct.pack('<I', ...)\<close> refuses, so the resolver raises instead of returning a link base.
\<close>

theorem resolver_raises_on_huge_image:
  "8 \<le> length huge_image \<and>
   extract_dictionary sample_decode huge_image = Inr (Some (klipper_dict, 4160749568)) \<and>
   find_link_base huge_image (Some 4160749568) = Inl StructError"
  by (simp add: length_huge_image huge_image_located huge_image_raises)

text \<open>
  C3, as the code has it.  The validator's answer at an offset is \<open>reports_plausible\<close>.  The
  vector-table file offset is 0 whenever offset 0 holds a plausible table, and the
  alternates are then not consulted; otherwise it is the smallest non-zero enumerated offset
  that holds a plausible table, and 0 when there is none.
\<close>

theorem vt_file_offset_rule:
  "(\<forall>off. is_valid_vt data off = Inr (reports_plausible data off)) \<and>
   (\<exists>vt. find_vt_file_offset data = Inr vt \<and>
     (reports_plausible data 0 \<longrightarrow> vt = 0) \<and>
     (\<not> reports_plausible data 0 \<longrightarrow>
        (vt \<in> set (tl KNOWN_BL_OFFSETS) \<and> reports_plausible data vt \<and>
         (\<forall>off \<in> set (tl KNOWN_BL_OFFSETS). off < vt \<longrightarrow> \<not> reports_plausible data off)) \<or>
        (vt = 0 \<and> (\<forall>off \<in> set (tl KNOWN_BL_OFFSETS). \<not> reports_plausible data off))))"
  using vt_file_offset_cases [of data] is_valid_vt_reports [of data] by blast

theorem vt_file_offset_rule_witness:
  "\<not> reports_plausible shifted_image 0 \<and> reports_plausible shifted_image 0x1000 \<and>
   find_vt_file_offset shifted_image = Inr 0x1000"
proof -
  from vt_file_offset_rule [of shifted_image] obtain vt where
    r: "\<forall>off. is_valid_vt shifted_image off = Inr (reports_plausible shifted_image off)" and
    vt: "find_vt_file_offset shifted_image = Inr vt" and
    c: "\<not> reports_plausible shifted_image 0 \<longrightarrow>
        (vt \<in> set (tl KNOWN_BL_OFFSETS) \<and> reports_plausible shifted_image vt \<and>
         (\<forall>off \<in> set (tl KNOWN_BL_OFFSETS). off < vt \<longrightarrow>
            \<not> reports_plausible shifted_image off)) \<or>
        (vt = 0 \<and> (\<forall>off \<in> set (tl KNOWN_BL_OFFSETS). \<not> reports_plausible shifted_image off))"
    by blast
  from r shifted_image_valid have n: "\<not> reports_plausible shifted_image 0"
    and p: "reports_plausible shifted_image 0x1000"
    by simp_all
  have m: "0x1000 \<in> set (tl KNOWN_BL_OFFSETS)"
    and least: "\<forall>off \<in> set (tl KNOWN_BL_OFFSETS). 0x1000 \<le> off"
    by (simp_all add: KNOWN_BL_OFFSETS_def)
  from c n p m have "vt \<in> set (tl KNOWN_BL_OFFSETS)" and "\<not> 0x1000 < vt"
    by blast+
  with least have "vt = 0x1000" by force
  with vt n p show ?thesis by simp
qed

text \<open>
  C3, as the claim states it, fails: with a plausible table both at offset 0 and at offset
  \<open>0x1000\<close> the vector-table file offset is 0, not \<open>0x1000\<close>, and the fallback resolves the
  link base to \<open>0x08000000\<close>.
\<close>

theorem offset_zero_takes_precedence:
  "is_valid_vt two_tables_image 0 = Inr True \<and>
   is_valid_vt two_tables_image 0x1000 = Inr True \<and>
   find_vt_file_offset two_tables_image = Inr 0 \<and>
   find_vt_file_offset two_tables_image \<noteq> Inr 0x1000 \<and>
   find_link_base two_tables_image None = Inr 0x08000000"
  by (simp add: two_tables_image_valid two_tables_image_vt two_tables_image_resolved)

text \<open>
  C5, as the code has it.  The locator examines exactly the positions \<open>i\<close> with
  \<open>4 \<le> i\<close> and \<open>i + 10 < len\<close>, in ascending order: it returns the first of them that holds an
  acceptable dictionary stream, and absence when none of them does.  The first four and the
  last ten positions of the buffer are never examined.
\<close>

theorem locator_scan_range:
  "(extract_dictionary decode data = Inr (Some (obj, i)) \<longleftrightarrow>
      4 \<le> i \<and> i + 10 < length data \<and> accepted_at decode data i = Some obj \<and>
      (\<forall>j. 4 \<le> j \<and> j < i \<longrightarrow> accepted_at decode data j = None)) \<and>
   (extract_dictionary decode data = Inr None \<longleftrightarrow>
      (\<forall>i. 4 \<le> i \<and> i + 10 < length data \<longrightarrow> accepted_at decode data i = None))"
  using extract_dictionary_Some_iff [of decode data obj i] extract_dictionary_None_iff [of decode data]
  by blast

theorem locator_scan_range_witness:
  "4 \<le> (12::nat) \<and> 12 + 10 < length klipper_image \<and>
   accepted_at sample_decode klipper_image 12 = Some klipper_dict \<and>
   extract_dictionary sample_decode klipper_image = Inr (Some (klipper_dict, 12))"
proof -
  have len: "12 + 10 < length klipper_image"
    by (simp add: length_klipper_image)
  have none: "\<forall>j. 4 \<le> j \<and> j < 12 \<longrightarrow> accepted_at sample_decode klipper_image j = None"
    using klipper_image_scan(2) by blast
  from locator_scan_range [of sample_decode klipper_image klipper_dict 12]
    len none klipper_image_scan(1)
  have "extract_dictionary sample_decode klipper_image = Inr (Some (klipper_dict, 12))"
    by simp
  with len klipper_image_scan(1) show ?thesis by simp
qed

text \<open>
  C5, as the claim states it, fails: an acceptable dictionary stream that begins at
  position 3 is skipped, and the locator reports absence.
\<close>

theorem early_stream_skipped:
  "signature_at early_stream_image 3 \<and>
   accepted_at sample_decode early_stream_image 3 = Some klipper_dict \<and>
   extract_dictionary sample_decode early_stream_image = Inr None"
proof -
  have a: "accepted_at sample_decode early_stream_image 3 = Some klipper_dict"
    by (rule early_stream_image_scan(1))
  then have s: "signature_at early_stream_image 3"
    by (simp add: accepted_at_def split: if_splits)
  have "extract_dictionary sample_decode early_stream_image = Inr None"
    unfolding extract_dictionary_None_iff using early_stream_image_scan(2) by blast
  with a s show ?thesis by simp
qed

text \<open>
  C6.  The locator never raises, whatever the library decoder does.  A failure of the
  \<^verbatim>\<open>try\<close> block at a position sends the scan on to the next position; and when at every
  scanned position with a signature the block raises or ends without a marker key, the
  locator returns absence.
\<close>

theorem locator_never_raises:
  "(\<exists>r. extract_dictionary decode data = Inr r) \<and>
   (\<forall>i rest e. i + 1 < length data \<and> try_candidate decode data i = Inl e \<longrightarrow>
      scan_positions decode data (i # rest) = scan_positions decode data rest) \<and>
   ((\<forall>i. 4 \<le> i \<and> i + 10 < length data \<and> signature_at data i \<longrightarrow>
         (\<exists>e. try_candidate decode data i = Inl e) \<or> try_candidate decode data i = Inr None)
    \<longrightarrow> extract_dictionary decode data = Inr None)"
proof (intro conjI allI impI)
  show "\<exists>r. extract_dictionary decode data = Inr r"
    by (simp add: extract_dictionary_find)
next
  fix i rest e
  assume "i + 1 < length data \<and> try_candidate decode data i = Inl e"
  then have "i + 1 < length data" and "accepted_at decode data i = None"
    by (simp_all add: accepted_at_def)
  then show "scan_positions decode data (i # rest) = scan_positions decode data rest"
    by (simp add: scan_positions_step del: scan_positions.simps(2))
next
  assume h: "\<forall>i. 4 \<le> i \<and> i + 10 < length data \<and> signature_at data i \<longrightarrow>
         (\<exists>e. try_candidate decode data i = Inl e) \<or> try_candidate decode data i = Inr None"
  have "accepted_at decode data i = None" if "4 \<le> i \<and> i + 10 < length data" for i
  proof (cases "signature_at data i")
    case True
    with h that have "(\<exists>e. try_candidate decode data i = Inl e) \<or>
        try_candidate decode data i = Inr None"
      by blast
    then show ?thesis by (auto simp: accepted_at_def)
  next
    case False
    then show ?thesis by (simp add: accepted_at_def)
  qed
  then show "extract_dictionary decode data = Inr None"
    unfolding extract_dictionary_None_iff by blast
qed

theorem locator_never_raises_witness:
  "4 \<le> (8::nat) \<and> 8 + 10 < length spurious_image \<and> signature_at spurious_image 8 \<and>
   try_candidate sample_decode spurious_image 8 = Inl ZlibError \<and>
   extract_dictionary sample_decode spurious_image = Inr None"
proof -
  have len: "8 + 10 < length spurious_image"
    by (simp add: spurious_image_def plain_image_def)
  have "\<forall>i. 4 \<le> i \<and> i + 10 < length spurious_image \<and> signature_at spurious_image i \<longrightarrow>
         (\<exists>e. try_candidate sample_decode spurious_image i = Inl e) \<or>
         try_candidate sample_decode spurious_image i = Inr None"
    using spurious_image_signatures spurious_image_candidate(2) by blast
  with locator_never_raises [of sample_decode spurious_image]
  have "extract_dictionary sample_decode spurious_image = Inr None"
    by blast
  with len spurious_image_candidate show ?thesis by simp
qed

text \<open>
  C8.  Whatever link base the resolver returns, \<^verbatim>\<open>main\<close> derives a bootloader offset from it
  unless the link base is 0; a derived offset equals the link base minus \<open>0x08000000\<close>, is an
  enumerated value or a multiple of \<open>0x1000\<close> (in fact always a multiple of \<open>0x1000\<close>), and the
  classifier answers the row of the table for an enumerated value, whose label is never
  ``Non-standard offset'', and \<open>(offset div 1024, ''Non-standard offset'')\<close> for every other.
\<close>

theorem bootloader_offset_classified:
  assumes "find_link_base data d = Inr lb"
  shows "(derive_bl_offset lb = None \<longleftrightarrow> lb = 0) \<and>
     (\<forall>off. derive_bl_offset lb = Some off \<longrightarrow>
        off = lb - 0x08000000 \<and>
        (off \<in> int ` set KNOWN_BL_OFFSETS \<or> off mod 0x1000 = 0) \<and>
        off mod 0x1000 = 0 \<and>
        (off \<in> int ` set KNOWN_BL_OFFSETS \<longrightarrow>
           (\<exists>kib label. (off, kib, label) \<in> set KNOWN_OFFSETS \<and>
              offset_label off = (kib, label) \<and> label \<noteq> ''Non-standard offset'')) \<and>
        (off \<notin> int ` set KNOWN_BL_OFFSETS \<longrightarrow>
           offset_label off = (off div 1024, ''Non-standard offset'')))"
proof (intro conjI allI impI)
  show "derive_bl_offset lb = None \<longleftrightarrow> lb = 0"
    by (simp add: derive_bl_offset_def)
next
  fix off
  assume s: "derive_bl_offset lb = Some off"
  then have off: "off = lb - FLASH_BASE"
    by (simp add: derive_bl_offset_def split: if_splits)
  then show "off = lb - 0x08000000"
    by (simp add: FLASH_BASE_def)
  from find_link_base_aligned [OF assms] off show al: "off mod 0x1000 = 0"
    by simp
  then show "off \<in> int ` set KNOWN_BL_OFFSETS \<or> off mod 0x1000 = 0" ..
  show "\<exists>kib label. (off, kib, label) \<in> set KNOWN_OFFSETS \<and>
          offset_label off = (kib, label) \<and> label \<noteq> ''Non-standard offset''"
    if "off \<in> int ` set KNOWN_BL_OFFSETS"
  proof -
    from that have "off \<in> fst ` set KNOWN_OFFSETS"
      by (simp add: known_offsets_fst)
    then obtain kib label where "(off, kib, label) \<in> set KNOWN_OFFSETS"
      by force
    with offset_label_enumerated enumerated_label_standard show ?thesis
      by blast
  qed
  show "offset_label off = (off div 1024, ''Non-standard offset'')"
    if "off \<notin> int ` set KNOWN_BL_OFFSETS"
    using that by (intro offset_label_other) (simp add: known_offsets_fst)
qed

theorem bootloader_offset_classified_witness:
  "find_link_base klipper_image (Some 12) = Inr 0x08003000 \<and>
   derive_bl_offset 0x08003000 = Some 0x3000 \<and>
   offset_label 0x3000 = (12, ''Creality K1 / K1 SE / K1 Max (GD32F303)'') \<and>
   find_link_base low_reset_image None = Inr 0x1000 \<and>
   derive_bl_offset 0x1000 = Some (- 0x7FFF000) \<and>
   offset_label (- 0x7FFF000) = (- 131068, ''Non-standard offset'')"
proof -
  have d1: "derive_bl_offset 0x08003000 = Some 0x3000"
    and d2: "derive_bl_offset 0x1000 = Some (- 0x7FFF000)"
    by (simp_all add: derive_bl_offset_def FLASH_BASE_def)
  have k: "0x3000 \<in> int ` set KNOWN_BL_OFFSETS"
    and n: "- 0x7FFF000 \<notin> int ` set KNOWN_BL_OFFSETS"
    by (simp_all add: KNOWN_BL_OFFSETS_def)
  from bootloader_offset_classified [OF klipper_image_resolved] d1 k
  obtain kib label where "(0x3000, kib, label) \<in> set KNOWN_OFFSETS"
    and "offset_label 0x3000 = (kib, label)"
    by blast
  then have l1: "offset_label 0x3000 = (12, ''Creality K1 / K1 SE / K1 Max (GD32F303)'')"
    by (auto simp: KNOWN_OFFSETS_def)
  from bootloader_offset_classified [OF low_reset_image_resolved] d2 n
  have "offset_label (- 0x7FFF000) = (- 0x7FFF000 div 1024, ''Non-standard offset'')"
    by blast
  then have l2: "offset_label (- 0x7FFF000) = (- 131068, ''Non-standard offset'')"
    by simp
  from klipper_image_resolved low_reset_image_resolved d1 d2 l1 l2 show ?thesis
    by simp
qed




end
